theory Spec2Isabelle
  imports Main "HOL-Library.Sublist"
begin

section \<open>Strings and the JavaScript built-ins used by server.js\<close>

text \<open>
  A JavaScript string is a sequence of UTF-16 code units. The model uses \<open>string\<close>, whose
  characters are the code units 0 to 255 (ASCII and Latin-1); the hash, the hyphen and
  the word characters all lie in that range. Of the white space and the line terminators
  the model has those of that range; the ones above it (such as U+2028) are not covered.
\<close>

text \<open>The class \<open>\w\<close> of a regular expression without flags: \<open>[A-Za-z0-9_]\<close>.\<close>

definition isWordChar :: "char \<Rightarrow> bool" where
  "isWordChar c = (let n = (of_char c :: nat) in
     (65 \<le> n \<and> n \<le> 90) \<or> (97 \<le> n \<and> n \<le> 122) \<or> (48 \<le> n \<and> n \<le> 57) \<or> n = 95)"

text \<open>
  The class \<open>\s\<close>, which is also what \<open>String.prototype.trim\<close> removes: tab, line feed,
  vertical tab, form feed, carriage return, space and no-break space.
\<close>

definition isSpaceChar :: "char \<Rightarrow> bool" where
  "isSpaceChar c = (let n = (of_char c :: nat) in (9 \<le> n \<and> n \<le> 13) \<or> n = 32 \<or> n = 160)"

text \<open>
  The line terminators, which \<open>.\<close> does not match: line feed and carriage return (the
  other two, U+2028 and U+2029, are beyond the code units modelled here).
\<close>

definition isLineTerminator :: "char \<Rightarrow> bool" where
  "isLineTerminator c = (let n = (of_char c :: nat) in n = 10 \<or> n = 13)"

text \<open>
  \<open>String.prototype.toLowerCase\<close>: \<open>A\<close> to \<open>Z\<close> and the Latin-1 capitals (0xC0 to 0xDE
  without the multiplication sign 0xD7) move up by 32; every other code unit stays.
\<close>

definition toLowerChar :: "char \<Rightarrow> char" where
  "toLowerChar c = (let n = (of_char c :: nat) in
     if (65 \<le> n \<and> n \<le> 90) \<or> (192 \<le> n \<and> n \<le> 214) \<or> (216 \<le> n \<and> n \<le> 222)
     then char_of (n + 32) else c)"

definition toLowerCase :: "string \<Rightarrow> string" where
  "toLowerCase s = map toLowerChar s"

text \<open>\<open>String.prototype.trim\<close>.\<close>

definition trim :: "string \<Rightarrow> string" where
  "trim s = rev (dropWhile isSpaceChar (rev (dropWhile isSpaceChar s)))"

text \<open>
  \<open>s.split('\n')\<close>: the pieces between line feeds; the empty string has one empty piece.
  The scan keeps the current piece, in reverse, and closes it at a line feed and at the end.
\<close>

fun splitFrom :: "string \<Rightarrow> string \<Rightarrow> string list" where
  "splitFrom cur [] = [rev cur]"
| "splitFrom cur (c # cs) =
     (if c = CHR 0x0A then rev cur # splitFrom [] cs else splitFrom (c # cur) cs)"

definition splitLines :: "string \<Rightarrow> string list" where
  "splitLines s = splitFrom [] s"

text \<open>
  \<open>s.replace(/\W+/g, '-')\<close>: scanning from the left, a word character is copied, and a
  character outside \<open>\w\<close> starts a match that the greedy \<open>+\<close> extends over every following
  character outside \<open>\w\<close>; the whole match becomes one hyphen.
\<close>

function replaceNonWord :: "string \<Rightarrow> string" where
  "replaceNonWord [] = []"
| "replaceNonWord (c # cs) =
     (if isWordChar c then c # replaceNonWord cs
      else CHR ''-'' # replaceNonWord (dropWhile (\<lambda>d. \<not> isWordChar d) cs))"
  by pat_completeness auto
termination
  by (relation "measure length") (auto simp: length_dropWhile_le less_Suc_eq_le)

text \<open>
  \<open>s.replace(/^-|-$/g, '')\<close>: the scan visits the positions \<open>i\<close> of the string of length
  \<open>n\<close> in turn. \<open>^-\<close> matches a hyphen at position 0 and \<open>-$\<close> a hyphen at position
  \<open>n - 1\<close>; a matched character is dropped, every other one is copied.
\<close>

fun dropEdgeMatches :: "nat \<Rightarrow> nat \<Rightarrow> string \<Rightarrow> string" where
  "dropEdgeMatches i n [] = []"
| "dropEdgeMatches i n (c # cs) =
     (if c = CHR ''-'' \<and> (i = 0 \<or> Suc i = n) then dropEdgeMatches (Suc i) n cs
      else c # dropEdgeMatches (Suc i) n cs)"

definition stripEdgeHyphens :: "string \<Rightarrow> string" where
  "stripEdgeHyphens s = dropEdgeMatches 0 (length s) s"

text \<open>
  Conversion of an integer to a string, as a template literal does it for \<open>${level}\<close> and
  \<open>${(item.level - 1) * 20}\<close>.
\<close>

fun showNat :: "nat \<Rightarrow> string" where
  "showNat n = (if n < 10 then [char_of (48 + n)]
     else showNat (n div 10) @ [char_of (48 + n mod 10)])"

definition showInt :: "int \<Rightarrow> string" where
  "showInt i = (if i < 0 then CHR ''-'' # showNat (nat (- i)) else showNat (nat i))"

section \<open>renderer.heading\<close>

record token =
  token_depth :: int
  token_text :: string

text \<open>Lines 18 and 19: \<open>String(text).toLowerCase().replace(/\W+/g, '-').replace(/^-|-$/g, '')\<close>.\<close>

definition headingSlug :: "string \<Rightarrow> string" where
  "headingSlug text = stripEdgeHyphens (replaceNonWord (toLowerCase text))"

text \<open>The line written to the console by \<open>renderer.heading\<close>.\<close>

definition headingLog :: "token \<Rightarrow> string" where
  "headingLog tok =
     ''Generated header: \"'' @ token_text tok @ ''\" (level '' @ showInt (token_depth tok)
       @ '') with slug: \"'' @ headingSlug (token_text tok) @ ''\"''"

text \<open>The value returned by \<open>renderer.heading\<close>.\<close>

definition renderer_heading :: "token \<Rightarrow> string" where
  "renderer_heading tok =
     ''<h'' @ showInt (token_depth tok) @ '' id=\"'' @ headingSlug (token_text tok) @ ''\">''
       @ token_text tok @ ''</h'' @ showInt (token_depth tok) @ ''>''"

section \<open>generateTOC\<close>

record tocItem =
  level :: int
  title :: string
  slug :: string

text \<open>
  \<open>line.match(/^(#{1,6})\s+(.*)/)\<close>, returning the two groups. The pattern is anchored at
  the start of the line. \<open>#{1,6}\<close> takes the leading hashes; with more than six of them, or
  with a character other than white space after them, \<open>\s+\<close> fails at every backtracking
  point, since giving back hashes only puts a hash in front of \<open>\s+\<close>. Otherwise \<open>\s+\<close>
  takes the whole run of white space and \<open>(.*)\<close> everything up to the first line terminator.
\<close>

definition headingMatch :: "string \<Rightarrow> (string \<times> string) option" where
  "headingMatch line =
     (let hashes = takeWhile (\<lambda>c. c = CHR ''#'') line;
          rest = dropWhile (\<lambda>c. c = CHR ''#'') line
      in if 1 \<le> length hashes \<and> length hashes \<le> 6
            \<and> (case rest of [] \<Rightarrow> False | c # _ \<Rightarrow> isSpaceChar c)
         then Some (hashes, takeWhile (\<lambda>c. \<not> isLineTerminator c) (dropWhile isSpaceChar rest))
         else None)"

text \<open>Lines 40 to 43: the slug of a title.\<close>

definition tocSlug :: "string \<Rightarrow> string" where
  "tocSlug t = stripEdgeHyphens (replaceNonWord (toLowerCase t))"

text \<open>The body of the first \<open>forEach\<close>: a matching line pushes one record.\<close>

definition pushHeading :: "tocItem list \<Rightarrow> string \<Rightarrow> tocItem list" where
  "pushHeading tocItems line =
     (case headingMatch line of
        None \<Rightarrow> tocItems
      | Some (m1, m2) \<Rightarrow>
          tocItems @ [\<lparr>level = int (length m1), title = trim m2, slug = tocSlug (trim m2)\<rparr>])"

text \<open>Lines 31 to 46: the array \<open>tocItems\<close> after the loop over the lines.\<close>

definition tocItems :: "string \<Rightarrow> tocItem list" where
  "tocItems markdownData = foldl pushHeading [] (splitLines markdownData)"

definition tocOpen :: string where
  "tocOpen = ''<nav id=\"toc\" style=\"margin-bottom:20px; padding:10px; border:1px solid #ddd; background:#f0f0f0; border-radius:4px;\"><h2>Table of Contents</h2>''"

text \<open>The body of the second \<open>forEach\<close>: one \<open>div\<close> appended per record.\<close>

definition appendEntry :: "string \<Rightarrow> tocItem \<Rightarrow> string" where
  "appendEntry tocHtml item =
     tocHtml @ ''<div style=\"margin-left: '' @ showInt ((level item - 1) * 20)
       @ ''px;\"><a href=\"#'' @ slug item @ ''\">'' @ title item @ ''</a></div>''"

text \<open>Lines 48 to 59: the string returned for the collected records.\<close>

definition tocHtmlOf :: "tocItem list \<Rightarrow> string" where
  "tocHtmlOf items =
     (if length items = 0 then []
      else foldl appendEntry tocOpen items @ ''</nav>'')"

definition generateTOC :: "string \<Rightarrow> string" where
  "generateTOC markdownData = tocHtmlOf (tocItems markdownData)"

section \<open>The request handler\<close>

text \<open>\<open>htmlContent.replace(/\[object Object\]/g, '')\<close>.\<close>

fun removeObjectObject :: "string \<Rightarrow> string" where
  "removeObjectObject [] = []"
| "removeObjectObject (c # cs) =
     (if take 15 (c # cs) = ''[object Object]'' then removeObjectObject (drop 14 cs)
      else c # removeObjectObject cs)"

definition fallbackNotice :: string where
  "fallbackNotice = ''<p><em>Note: No headings found for navigation. Please ensure your Markdown file uses proper header syntax (e.g., \"## Creational Design Patterns\").</em></p>''"

text \<open>Lines 83 to 89: the table of contents, or the notice, goes in front of the body.\<close>

definition composeContent :: "string \<Rightarrow> string \<Rightarrow> string" where
  "composeContent tocHtml htmlContent =
     (if tocHtml = [] then fallbackNotice @ htmlContent else tocHtml @ htmlContent)"

text \<open>
  What a request does, as the sequence of its effects: a line on the error console, the
  table of contents logged by \<open>generateTOC\<close>, a call of the conversion engine, and the
  response with its status and body.
\<close>

datatype 'e effect =
    ConsoleError 'e
  | TocLogged "tocItem list"
  | EngineParsed string
  | Responded nat string

text \<open>
  The callback given to \<open>fs.readFile\<close>. Its argument is the outcome of the read: \<open>Inl err\<close>
  or \<open>Inr markdownData\<close>. The conversion engine \<open>marked.parse\<close> is a parameter that receives
  the heading hook and the source; the fixed text of the page template before and after
  \<open>${htmlContent}\<close> are the parameters \<open>pageHead\<close> and \<open>pageTail\<close>.
\<close>

definition rootHandler ::
  "((token \<Rightarrow> string) \<Rightarrow> string \<Rightarrow> string) \<Rightarrow> string \<Rightarrow> string \<Rightarrow> 'e + string \<Rightarrow> 'e effect list" where
  "rootHandler parse pageHead pageTail readResult =
     (case readResult of
        Inl err \<Rightarrow>
          [ConsoleError err, Responded 500 ''Internal Server Error: Could not read Markdown file.'']
      | Inr markdownData \<Rightarrow>
          (let tocHtml = generateTOC markdownData;
               htmlContent = removeObjectObject (parse renderer_heading markdownData);
               htmlContent = composeContent tocHtml htmlContent
           in [TocLogged (tocItems markdownData), EngineParsed markdownData,
               Responded 200 (pageHead @ htmlContent @ pageTail)]))"

section \<open>The specification's reading of the slug\<close>

text \<open>The class \<open>[a-z0-9_]\<close> named by the specification.\<close>

definition isSlugChar :: "char \<Rightarrow> bool" where
  "isSlugChar c = (let n = (of_char c :: nat) in
     (97 \<le> n \<and> n \<le> 122) \<or> (48 \<le> n \<and> n \<le> 57) \<or> n = 95)"

text \<open>
  "Replace every maximal run of characters outside \<open>[a-z0-9_]\<close> with a single hyphen":
  the flag tells whether the previous character already belongs to a run, whose hyphen
  has been written.
\<close>

fun hyphenateRuns :: "bool \<Rightarrow> string \<Rightarrow> string" where
  "hyphenateRuns inRun [] = []"
| "hyphenateRuns inRun (c # cs) =
     (if isSlugChar c then c # hyphenateRuns False cs
      else if inRun then hyphenateRuns True cs
      else CHR ''-'' # hyphenateRuns True cs)"

text \<open>"Strip a leading or trailing hyphen if present": first the leading one, then the trailing one.\<close>

definition stripOuterHyphen :: "string \<Rightarrow> string" where
  "stripOuterHyphen s =
     (let s1 = (case s of [] \<Rightarrow> [] | c # cs \<Rightarrow> if c = CHR ''-'' then cs else c # cs)
      in if suffix ''-'' s1 then butlast s1 else s1)"

definition specSlug :: "string \<Rightarrow> string" where
  "specSlug t = stripOuterHyphen (hyphenateRuns False (toLowerCase t))"

text \<open>Two hyphens next to each other somewhere in the string.\<close>

fun hasAdjacentHyphens :: "string \<Rightarrow> bool" where
  "hasAdjacentHyphens [] = False"
| "hasAdjacentHyphens [a] = False"
| "hasAdjacentHyphens (a # b # cs) =
     ((a = CHR ''-'' \<and> b = CHR ''-'') \<or> hasAdjacentHyphens (b # cs))"

section \<open>The specification's reading of heading extraction\<close>

text \<open>The number of \<open>#\<close> characters a line starts with.\<close>

definition leadingHashes :: "string \<Rightarrow> nat" where
  "leadingHashes line = length (takeWhile (\<lambda>c. c = CHR ''#'') line)"

text \<open>"The line begins with 1 to 6 \<open>#\<close> characters followed by whitespace."\<close>

definition beginsWithHashesThenSpace :: "string \<Rightarrow> bool" where
  "beginsWithHashesThenSpace line =
     list_ex (\<lambda>k. take k line = replicate k (CHR ''#'') \<and> k < length line
                \<and> isSpaceChar (line ! k)) [1..<7]"

text \<open>
  The record of a heading line: the level is the count of leading \<open>#\<close>; the title is the
  trimmed remainder of the line, cut at its first line terminator and trimmed again.
\<close>

definition specRecord :: "string \<Rightarrow> tocItem" where
  "specRecord line =
     (let t = trim (takeWhile (\<lambda>c. \<not> isLineTerminator c)
                (trim (drop (leadingHashes line) line)))
      in \<lparr>level = int (leadingHashes line), title = t, slug = tocSlug t\<rparr>)"

definition specItems :: "string \<Rightarrow> tocItem list" where
  "specItems src =
     concat (map (\<lambda>line. if beginsWithHashesThenSpace line then [specRecord line] else [])
       (splitLines src))"

section \<open>The conversion engine's inline resolution\<close>

text \<open>
  Modelled from the spec: the conversion engine (marked) is an external library, not part
  of the repository, and the specification says that the text it hands to the heading hook
  is the heading's inline-resolved plain text, with emphasis markup stripped. The model
  covers the bold span of the specification's example: the delimiter \<open>**\<close> is removed
  and the text between the delimiters is kept.
\<close>

fun resolveInline :: "string \<Rightarrow> string" where
  "resolveInline [] = []"
| "resolveInline [a] = [a]"
| "resolveInline (a # b # cs) =
     (if a = CHR ''*'' \<and> b = CHR ''*'' then resolveInline cs else a # resolveInline (b # cs))"

section \<open>Properties of the slug computation\<close>

lemma toLowerChar_not_upper:
  "\<not> (65 \<le> (of_char (toLowerChar c) :: nat) \<and> (of_char (toLowerChar c) :: nat) \<le> 90)"
  by (auto simp: toLowerChar_def Let_def)

lemma word_lower_iff: "isWordChar (toLowerChar c) = isSlugChar (toLowerChar c)"
  using toLowerChar_not_upper [of c] by (auto simp: isWordChar_def isSlugChar_def Let_def)

lemma hyphenateRuns_replace:
  assumes "\<forall>c \<in> set t. isWordChar c = isSlugChar c"
  shows "hyphenateRuns False t = replaceNonWord t
       \<and> hyphenateRuns True t = replaceNonWord (dropWhile (\<lambda>d. \<not> isWordChar d) t)"
  using assms by (induction t) auto

lemma dropEdgeMatches_inner:
  "0 < i \<Longrightarrow> n = i + length cs \<Longrightarrow>
   dropEdgeMatches i n cs = (if suffix ''-'' cs then butlast cs else cs)"
proof (induction cs arbitrary: i)
  case Nil
  then show ?case by simp
next
  case (Cons c cs)
  then show ?case by (cases cs) (auto simp: suffix_Cons)
qed

lemma stripEdge_spec: "stripEdgeHyphens s = stripOuterHyphen s"
  by (cases s)
    (auto simp: stripEdgeHyphens_def stripOuterHyphen_def dropEdgeMatches_inner Let_def suffix_Cons)

lemma pipeline_refines:
  "stripEdgeHyphens (replaceNonWord (toLowerCase s)) = specSlug s"
  by (simp add: specSlug_def stripEdge_spec toLowerCase_def hyphenateRuns_replace word_lower_iff)

lemma slugChar_enum: "isSlugChar c \<longleftrightarrow> c \<in> set ''abcdefghijklmnopqrstuvwxyz0123456789_''"
proof
  assume "isSlugChar c"
  then have "(of_char c :: nat) \<in> {97..122} \<union> {48..57} \<union> {95}"
    by (auto simp: isSlugChar_def Let_def)
  then have "(of_char c :: nat) \<in> set ([97..<123] @ [48..<58] @ [95])"
    unfolding set_append set_upt by auto
  then have "char_of (of_char c :: nat) \<in> char_of ` set ([97..<123] @ [48..<58] @ [95::nat])"
    by (rule imageI)
  then have "c \<in> set (map char_of ([97..<123] @ [48..<58] @ [95::nat]))"
    by simp
  also have "map char_of ([97..<123] @ [48..<58] @ [95::nat])
      = ''abcdefghijklmnopqrstuvwxyz0123456789_''"
    by code_simp
  finally show "c \<in> set ''abcdefghijklmnopqrstuvwxyz0123456789_''" .
next
  assume "c \<in> set ''abcdefghijklmnopqrstuvwxyz0123456789_''"
  then have "list_ex (\<lambda>d. d = c) ''abcdefghijklmnopqrstuvwxyz0123456789_''"
    by (simp add: list_ex_iff)
  then show "isSlugChar c"
    by (auto simp: isSlugChar_def)
qed

lemma hyphen_not_word: "\<not> isWordChar (CHR ''-'')"
  by (simp add: isWordChar_def)

lemma replaceNonWord_chars:
  "c \<in> set (replaceNonWord t) \<Longrightarrow> c = CHR ''-'' \<or> (c \<in> set t \<and> isWordChar c)"
  by (induction t rule: replaceNonWord.induct) (auto split: if_splits dest: set_dropWhileD)

lemma replaceNonWord_no_leading:
  "t = [] \<or> isWordChar (hd t) \<Longrightarrow> \<not> prefix ''-'' (replaceNonWord t)"
  using hyphen_not_word by (cases t) auto

lemma dropWhile_starts_word:
  "dropWhile (\<lambda>d. \<not> isWordChar d) cs = []
     \<or> isWordChar (hd (dropWhile (\<lambda>d. \<not> isWordChar d) cs))"
  using hd_dropWhile [of "\<lambda>d. \<not> isWordChar d" cs] by auto

lemma adjacent_Cons:
  "hasAdjacentHyphens (a # s) \<longleftrightarrow> (a = CHR ''-'' \<and> prefix ''-'' s) \<or> hasAdjacentHyphens s"
  by (cases s) auto

lemma replaceNonWord_no_adjacent: "\<not> hasAdjacentHyphens (replaceNonWord t)"
proof (induction t rule: replaceNonWord.induct)
  case 1
  then show ?case by simp
next
  case (2 c cs)
  show ?case
  proof (cases "isWordChar c")
    case True
    with 2 hyphen_not_word show ?thesis by (auto simp: adjacent_Cons)
  next
    case False
    with 2 replaceNonWord_no_leading [OF dropWhile_starts_word [of cs]]
    show ?thesis by (simp add: adjacent_Cons)
  qed
qed

lemma adjacent_snoc:
  "hasAdjacentHyphens (s @ [c]) \<longleftrightarrow> hasAdjacentHyphens s \<or> (suffix ''-'' s \<and> c = CHR ''-'')"
proof (induction s rule: hasAdjacentHyphens.induct)
  case 1
  then show ?case by simp
next
  case (2 a)
  then show ?case by (auto simp: suffix_Cons)
next
  case (3 a b cs)
  then show ?case by (auto simp: suffix_Cons)
qed

lemma strip_chars: "set (stripOuterHyphen s) \<subseteq> set s"
  by (cases s) (auto simp: stripOuterHyphen_def Let_def dest: in_set_butlastD)

lemma strip_no_adjacent:
  assumes "\<not> hasAdjacentHyphens s"
  shows "\<not> hasAdjacentHyphens (stripOuterHyphen s)"
proof -
  define s1 where "s1 = (case s of [] \<Rightarrow> [] | c # cs \<Rightarrow> if c = CHR ''-'' then cs else c # cs)"
  have a1: "\<not> hasAdjacentHyphens s1"
    using assms by (cases s) (auto simp: s1_def adjacent_Cons)
  have "\<not> hasAdjacentHyphens (butlast s1)"
  proof (cases "s1 = []")
    case True
    then show ?thesis by simp
  next
    case False
    then have "s1 = butlast s1 @ [last s1]" by simp
    with a1 adjacent_snoc [of "butlast s1" "last s1"] show ?thesis by auto
  qed
  with a1 show ?thesis by (simp add: stripOuterHyphen_def s1_def [symmetric] Let_def)
qed

lemma strip_no_leading:
  assumes "\<not> hasAdjacentHyphens s"
  shows "\<not> prefix ''-'' (stripOuterHyphen s)"
proof -
  define s1 where "s1 = (case s of [] \<Rightarrow> [] | c # cs \<Rightarrow> if c = CHR ''-'' then cs else c # cs)"
  have p1: "\<not> prefix ''-'' s1"
    using assms by (cases s) (auto simp: s1_def adjacent_Cons)
  then have "\<not> prefix ''-'' (butlast s1)"
    by (cases s1) auto
  with p1 show ?thesis by (simp add: stripOuterHyphen_def s1_def [symmetric] Let_def)
qed

lemma strip_no_trailing:
  assumes "\<not> hasAdjacentHyphens s"
  shows "\<not> suffix ''-'' (stripOuterHyphen s)"
proof -
  define s1 where "s1 = (case s of [] \<Rightarrow> [] | c # cs \<Rightarrow> if c = CHR ''-'' then cs else c # cs)"
  have a1: "\<not> hasAdjacentHyphens s1"
    using assms by (cases s) (auto simp: s1_def adjacent_Cons)
  have "\<not> suffix ''-'' (butlast s1)" if "suffix ''-'' s1"
  proof -
    from that have "s1 = butlast s1 @ [CHR ''-'']"
      by (auto simp: suffix_def)
    with a1 adjacent_snoc [of "butlast s1" "CHR ''-''"] show ?thesis by auto
  qed
  then show ?thesis by (auto simp: stripOuterHyphen_def s1_def [symmetric] Let_def)
qed

lemma lower_word_is_slugChar:
  "c \<in> set (toLowerCase s) \<Longrightarrow> isWordChar c \<Longrightarrow> isSlugChar c"
  using word_lower_iff by (auto simp: toLowerCase_def)

lemma pipeline_chars:
  assumes "c \<in> set (stripEdgeHyphens (replaceNonWord (toLowerCase s)))"
  shows "c \<in> set ''abcdefghijklmnopqrstuvwxyz0123456789_-''"
proof -
  from assms have "c \<in> set (replaceNonWord (toLowerCase s))"
    using strip_chars by (auto simp: stripEdge_spec)
  then have "c = CHR ''-'' \<or> isSlugChar c"
    using replaceNonWord_chars lower_word_is_slugChar by blast
  then show ?thesis
    by (auto simp: slugChar_enum)
qed

lemma pipeline_shape:
  "\<not> hasAdjacentHyphens (stripEdgeHyphens (replaceNonWord (toLowerCase s)))
   \<and> \<not> prefix ''-'' (stripEdgeHyphens (replaceNonWord (toLowerCase s)))
   \<and> \<not> suffix ''-'' (stripEdgeHyphens (replaceNonWord (toLowerCase s)))"
  using replaceNonWord_no_adjacent [of "toLowerCase s"]
  by (simp add: stripEdge_spec strip_no_adjacent strip_no_leading strip_no_trailing)

section \<open>Properties of heading extraction\<close>

lemma hash_not_space: "\<not> isSpaceChar (CHR ''#'')"
  by (simp add: isSpaceChar_def)

lemma rest_is_drop:
  "dropWhile (\<lambda>c. c = CHR ''#'') line = drop (leadingHashes line) line"
  by (simp add: leadingHashes_def dropWhile_eq_drop)

lemma hashes_are_replicate:
  "takeWhile (\<lambda>c. c = CHR ''#'') line = replicate (leadingHashes line) (CHR ''#'')"
proof -
  have "\<forall>y \<in> set (takeWhile (\<lambda>c. c = CHR ''#'') line). y = CHR ''#''"
    by (auto dest: set_takeWhileD)
  then show ?thesis
    unfolding leadingHashes_def by (metis replicate_length_same)
qed

lemma rest_case:
  "(case dropWhile (\<lambda>c. c = CHR ''#'') line of [] \<Rightarrow> False | c # _ \<Rightarrow> isSpaceChar c)
     \<longleftrightarrow> leadingHashes line < length line \<and> isSpaceChar (line ! leadingHashes line)"
proof (cases "leadingHashes line < length line")
  case True
  then have "drop (leadingHashes line) line
      = line ! leadingHashes line # drop (Suc (leadingHashes line)) line"
    by (simp add: Cons_nth_drop_Suc)
  with True show ?thesis by (simp add: rest_is_drop)
next
  case False
  then show ?thesis by (simp add: rest_is_drop)
qed

lemma begins_unique:
  assumes "take k line = replicate k (CHR ''#'')" "k < length line" "isSpaceChar (line ! k)"
  shows "leadingHashes line = k"
proof -
  have "takeWhile (\<lambda>c. c = CHR ''#'') line = take k line"
  proof (rule takeWhile_eq_take_P_nth)
    fix i assume "i < k" "i < length line"
    then have "line ! i = take k line ! i" by simp
    also have "\<dots> = CHR ''#''" using \<open>i < k\<close> assms(1) by simp
    finally show "line ! i = CHR ''#''" .
  next
    show "line ! k \<noteq> CHR ''#''" using assms(3) hash_not_space by auto
  qed
  with assms(2) show ?thesis by (simp add: leadingHashes_def)
qed

lemma begins_iff:
  "beginsWithHashesThenSpace line \<longleftrightarrow>
     1 \<le> leadingHashes line \<and> leadingHashes line \<le> 6
     \<and> leadingHashes line < length line \<and> isSpaceChar (line ! leadingHashes line)"
proof
  assume "beginsWithHashesThenSpace line"
  then obtain k where k: "1 \<le> k" "k < 7" "take k line = replicate k (CHR ''#'')"
      "k < length line" "isSpaceChar (line ! k)"
    unfolding beginsWithHashesThenSpace_def list_ex_iff set_upt by auto
  from begins_unique [OF k(3,4,5)] k
  show "1 \<le> leadingHashes line \<and> leadingHashes line \<le> 6
     \<and> leadingHashes line < length line \<and> isSpaceChar (line ! leadingHashes line)"
    by simp
next
  assume a: "1 \<le> leadingHashes line \<and> leadingHashes line \<le> 6
     \<and> leadingHashes line < length line \<and> isSpaceChar (line ! leadingHashes line)"
  have "take (leadingHashes line) line = replicate (leadingHashes line) (CHR ''#'')"
    using hashes_are_replicate [of line] takeWhile_eq_take [of "\<lambda>c. c = CHR ''#''" line]
    by (simp add: leadingHashes_def)
  with a have "\<exists>k \<in> set [1..<7]. take k line = replicate k (CHR ''#'') \<and> k < length line
      \<and> isSpaceChar (line ! k)"
    unfolding set_upt by (intro bexI [of _ "leadingHashes line"]) auto
  then show "beginsWithHashesThenSpace line"
    unfolding beginsWithHashesThenSpace_def list_ex_iff .
qed

lemma headingMatch_iff:
  "headingMatch line =
     (if beginsWithHashesThenSpace line
      then Some (takeWhile (\<lambda>c. c = CHR ''#'') line,
        takeWhile (\<lambda>c. \<not> isLineTerminator c) (dropWhile isSpaceChar (drop (leadingHashes line) line)))
      else None)"
  unfolding headingMatch_def Let_def rest_case begins_iff
  by (simp add: rest_is_drop leadingHashes_def)

lemma trim_append_spaces:
  assumes "\<forall>c \<in> set w. isSpaceChar c"
  shows "trim (x @ w) = trim x"
proof (cases "\<forall>c \<in> set x. isSpaceChar c")
  case True
  then have a: "dropWhile isSpaceChar x = []" by simp
  from True assms have b: "dropWhile isSpaceChar (x @ w) = []" by auto
  show ?thesis unfolding trim_def a b by simp
next
  case False
  then have "dropWhile isSpaceChar (x @ w) = dropWhile isSpaceChar x @ w"
    by (auto simp: dropWhile_append)
  moreover have "dropWhile isSpaceChar (rev w @ rev (dropWhile isSpaceChar x))
      = dropWhile isSpaceChar (rev (dropWhile isSpaceChar x))"
    using assms by (intro dropWhile_append2) simp
  ultimately show ?thesis unfolding trim_def by simp
qed

lemma trim_split:
  "\<exists>w. (\<forall>c \<in> set w. isSpaceChar c) \<and> dropWhile isSpaceChar r = trim r @ w"
proof -
  let ?d = "dropWhile isSpaceChar r"
  have "rev (takeWhile isSpaceChar (rev ?d) @ dropWhile isSpaceChar (rev ?d)) = ?d"
    by (simp only: takeWhile_dropWhile_id rev_rev_ident)
  then have "rev (dropWhile isSpaceChar (rev ?d)) @ rev (takeWhile isSpaceChar (rev ?d)) = ?d"
    by (simp only: rev_append)
  then have "?d = trim r @ rev (takeWhile isSpaceChar (rev ?d))"
    unfolding trim_def by (rule sym)
  moreover have "\<forall>c \<in> set (rev (takeWhile isSpaceChar (rev ?d))). isSpaceChar c"
    by (auto dest: set_takeWhileD)
  ultimately show ?thesis by blast
qed

lemma trim_idem: "trim (trim r) = trim r"
proof -
  have "trim r = [] \<or> \<not> isSpaceChar (hd (trim r))"
  proof (cases "dropWhile isSpaceChar r = []")
    case True show ?thesis unfolding trim_def True by simp
  next
    case False
    then have h: "\<not> isSpaceChar (hd (dropWhile isSpaceChar r))" by (rule hd_dropWhile)
    obtain w where w: "\<forall>c \<in> set w. isSpaceChar c" "dropWhile isSpaceChar r = trim r @ w"
      using trim_split by blast
    show ?thesis
    proof (cases "trim r = []")
      case True then show ?thesis by simp
    next
      case False
      with w(2) have "hd (dropWhile isSpaceChar r) = hd (trim r)" by simp
      with h show ?thesis by simp
    qed
  qed
  then have d: "dropWhile isSpaceChar (trim r) = trim r"
    by (cases "trim r") auto
  have "trim r = [] \<or> \<not> isSpaceChar (last (trim r))"
  proof (cases "dropWhile isSpaceChar (rev (dropWhile isSpaceChar r)) = []")
    case True show ?thesis unfolding trim_def True by simp
  next
    case False
    then have "\<not> isSpaceChar (hd (dropWhile isSpaceChar (rev (dropWhile isSpaceChar r))))"
      by (rule hd_dropWhile)
    with False show ?thesis by (simp add: trim_def last_rev)
  qed
  then have "dropWhile isSpaceChar (rev (trim r)) = rev (trim r)"
    by (cases "rev (trim r)") (auto simp: last_rev hd_rev)
  with d show ?thesis by (simp add: trim_def [of "trim r"])
qed

lemma title_via_trim:
  "trim (takeWhile (\<lambda>c. \<not> isLineTerminator c) (dropWhile isSpaceChar r))
     = trim (takeWhile (\<lambda>c. \<not> isLineTerminator c) (trim r))"
proof -
  obtain w where w: "\<forall>c \<in> set w. isSpaceChar c" "dropWhile isSpaceChar r = trim r @ w"
    using trim_split by blast
  show ?thesis
  proof (cases "\<forall>c \<in> set (trim r). \<not> isLineTerminator c")
    case True
    then have t1: "takeWhile (\<lambda>c. \<not> isLineTerminator c) (trim r @ w)
        = trim r @ takeWhile (\<lambda>c. \<not> isLineTerminator c) w"
      by simp
    have t2: "\<forall>c \<in> set (takeWhile (\<lambda>c. \<not> isLineTerminator c) w). isSpaceChar c"
      using w(1) by (auto dest: set_takeWhileD)
    from True have t3: "takeWhile (\<lambda>c. \<not> isLineTerminator c) (trim r) = trim r"
      by simp
    show ?thesis unfolding w(2) t1 t3 trim_append_spaces [OF t2] ..
  next
    case False
    then have "takeWhile (\<lambda>c. \<not> isLineTerminator c) (trim r @ w)
        = takeWhile (\<lambda>c. \<not> isLineTerminator c) (trim r)"
      by (auto simp: takeWhile_append1)
    then show ?thesis by (simp add: w(2))
  qed
qed

lemma pushHeading_spec:
  "pushHeading acc line = acc @ (if beginsWithHashesThenSpace line then [specRecord line] else [])"
  by (simp add: pushHeading_def headingMatch_iff specRecord_def Let_def title_via_trim
      leadingHashes_def)

lemma foldl_pushHeading:
  "foldl pushHeading acc ls
     = acc @ concat (map (\<lambda>line. if beginsWithHashesThenSpace line then [specRecord line] else []) ls)"
  by (induction ls arbitrary: acc) (simp_all add: pushHeading_spec)

lemma tocItems_spec: "tocItems src = specItems src"
  by (simp add: tocItems_def specItems_def foldl_pushHeading)

lemma splitFrom_append:
  "splitFrom cur (a @ CHR 0x0A # b) = splitFrom cur a @ splitLines b"
  by (induction a arbitrary: cur) (auto simp: splitLines_def)

lemma splitLines_append:
  "splitLines (a @ CHR 0x0A # b) = splitLines a @ splitLines b"
  by (simp add: splitLines_def [of "a @ CHR 0x0A # b"] splitLines_def [of a] splitFrom_append)

lemma splitFrom_single: "CHR 0x0A \<notin> set line \<Longrightarrow> splitFrom cur line = [rev cur @ line]"
  by (induction line arbitrary: cur) auto

lemma splitLines_single: "CHR 0x0A \<notin> set line \<Longrightarrow> splitLines line = [line]"
  by (simp add: splitLines_def splitFrom_single)

lemma title_plain:
  assumes "\<forall>c \<in> set (trim (drop (leadingHashes line) line)). \<not> isLineTerminator c"
  shows "title (specRecord line) = trim (drop (leadingHashes line) line)"
proof -
  from assms have e: "takeWhile (\<lambda>c. \<not> isLineTerminator c) (trim (drop (leadingHashes line) line))
      = trim (drop (leadingHashes line) line)"
    by simp
  show ?thesis unfolding specRecord_def Let_def e by (simp add: trim_idem)
qed


lemma tocItems_append:
  "tocItems (a @ CHR 0x0A # b) = tocItems a @ tocItems b"
  by (simp add: tocItems_spec specItems_def splitLines_append)

lemma tocItems_line:
  "CHR 0x0A \<notin> set line \<Longrightarrow>
   tocItems line = (if beginsWithHashesThenSpace line then [specRecord line] else [])"
  by (simp add: tocItems_spec specItems_def splitLines_single)

lemma fence_line_no_record:
  assumes "CHR 0x0A \<notin> set info"
  shows "tocItems (''```'' @ info) = []"
proof -
  have "leadingHashes (''```'' @ info) = 0"
    by (simp add: leadingHashes_def)
  then have a: "\<not> beginsWithHashesThenSpace (''```'' @ info)"
    by (simp add: begins_iff)
  from assms have "CHR 0x0A \<notin> set (''```'' @ info)"
    by simp
  then have "tocItems (''```'' @ info)
      = (if beginsWithHashesThenSpace (''```'' @ info) then [specRecord (''```'' @ info)] else [])"
    by (rule tocItems_line)
  with a show ?thesis
    by simp
qed

lemma foldl_appendEntry:
  "foldl appendEntry acc items =
     acc @ concat (map (\<lambda>item. ''<div style=\"margin-left: '' @ showInt (20 * (level item - 1))
       @ ''px;\"><a href=\"#'' @ slug item @ ''\">'' @ title item @ ''</a></div>'') items)"
  by (induction items arbitrary: acc) (simp_all add: appendEntry_def mult.commute)

lemma item_slug:
  "item \<in> set (tocItems src) \<Longrightarrow> slug item = tocSlug (title item)"
  by (auto simp: tocItems_spec specItems_def specRecord_def Let_def split: if_splits)

lemma item_level:
  "item \<in> set (tocItems src) \<Longrightarrow> 1 \<le> level item \<and> level item \<le> 6"
  by (auto simp: tocItems_spec specItems_def specRecord_def Let_def begins_iff split: if_splits)

lemma tocSlug_empty: "tocSlug [] = []"
  by code_simp

lemma trim_Nil: "trim [] = []"
  by (simp add: trim_def)

lemma trim_all_space: "\<forall>c \<in> set ws. isSpaceChar c \<Longrightarrow> trim ws = []"
  using trim_append_spaces [of ws "[]"] by (simp add: trim_def)

lemma leadingHashes_blank:
  assumes "ws \<noteq> []" and "\<forall>c \<in> set ws. isSpaceChar c"
  shows "leadingHashes (replicate k (CHR ''#'') @ ws) = k"
proof -
  from assms obtain w rest where ws: "ws = w # rest" and w: "isSpaceChar w"
    by (cases ws) auto
  from w hash_not_space have "w \<noteq> CHR ''#''" by auto
  then have t: "takeWhile (\<lambda>c. c = CHR ''#'') ws = []" by (simp add: ws)
  have "takeWhile (\<lambda>c. c = CHR ''#'') (replicate k (CHR ''#'') @ ws)
      = replicate k (CHR ''#'') @ takeWhile (\<lambda>c. c = CHR ''#'') ws"
    by (rule takeWhile_append2) simp
  then show ?thesis
    unfolding leadingHashes_def t by simp
qed

lemma blank_heading_record:
  assumes "1 \<le> k" and "k \<le> 6" and "ws \<noteq> []" and "\<forall>c \<in> set ws. isSpaceChar c"
  shows "beginsWithHashesThenSpace (replicate k (CHR ''#'') @ ws)
       \<and> specRecord (replicate k (CHR ''#'') @ ws) = \<lparr>level = int k, title = [], slug = []\<rparr>"
proof -
  have lh: "leadingHashes (replicate k (CHR ''#'') @ ws) = k"
    using assms(3,4) by (rule leadingHashes_blank)
  have "isSpaceChar (hd ws)" using assms(3,4) by simp
  then have b: "beginsWithHashesThenSpace (replicate k (CHR ''#'') @ ws)"
    using assms(1,2,3) by (simp add: begins_iff lh nth_append hd_conv_nth)
  have "specRecord (replicate k (CHR ''#'') @ ws) = \<lparr>level = int k, title = [], slug = []\<rparr>"
    using assms(4) by (simp add: specRecord_def Let_def lh trim_all_space tocSlug_empty trim_Nil)
  with b show ?thesis by simp
qed

lemma tocHtmlOf_entries:
  "items \<noteq> [] \<Longrightarrow>
   tocHtmlOf items =
     tocOpen @ concat (map (\<lambda>item. ''<div style=\"margin-left: '' @ showInt (20 * (level item - 1))
       @ ''px;\"><a href=\"#'' @ slug item @ ''\">'' @ title item @ ''</a></div>'') items)
     @ ''</nav>''"
  by (simp add: tocHtmlOf_def foldl_appendEntry)



section \<open>The claims\<close>

text \<open>
  C3. For every input string the slug computed by the code (both copies of the
  expression: the one in \<open>renderer.heading\<close> and the one in \<open>generateTOC\<close>) is the slug the
  specification describes: the string in lower case, every maximal run of characters
  outside \<open>[a-z0-9_]\<close> replaced by one hyphen, a leading and a trailing hyphen removed.
  In particular the slug of \<open>Hello World\<close> is \<open>hello-world\<close>, the slug of
  \<open>  Multiple   Spaces!! \<close> is \<open>multiple-spaces\<close>, and the slug of the empty string is empty.
\<close>

theorem slug_meets_specification:
  "headingSlug s = specSlug s
   \<and> tocSlug s = specSlug s
   \<and> headingSlug ''Hello World'' = ''hello-world''
   \<and> headingSlug ''  Multiple   Spaces!! '' = ''multiple-spaces''
   \<and> headingSlug [] = []"
proof -
  have "headingSlug ''Hello World'' = ''hello-world''" by code_simp
  moreover have "headingSlug ''  Multiple   Spaces!! '' = ''multiple-spaces''" by code_simp
  moreover have "headingSlug [] = []" by code_simp
  ultimately show ?thesis
    by (simp add: headingSlug_def tocSlug_def pipeline_refines)
qed

theorem slug_meets_specification_witness:
  "headingSlug ''Design Patterns: A--Z'' = specSlug ''Design Patterns: A--Z''
   \<and> specSlug ''Design Patterns: A--Z'' = ''design-patterns-a-z''"
proof -
  have "specSlug ''Design Patterns: A--Z'' = ''design-patterns-a-z''" by code_simp
  then show ?thesis
    using slug_meets_specification [of "''Design Patterns: A--Z''"] by simp
qed

text \<open>
  C9. For every input string the slug contains only the characters \<open>a\<close> to \<open>z\<close>, \<open>0\<close> to
  \<open>9\<close>, underscore and hyphen, has no two hyphens next to each other, and neither starts
  nor ends with a hyphen. This holds for the \<open>id\<close> computed by \<open>renderer.heading\<close> and for
  the fragment computed by \<open>generateTOC\<close>.
\<close>

theorem slug_fragment_safe:
  "(\<forall>c \<in> set (headingSlug s). c \<in> set ''abcdefghijklmnopqrstuvwxyz0123456789_-'')
   \<and> \<not> hasAdjacentHyphens (headingSlug s)
   \<and> \<not> prefix ''-'' (headingSlug s)
   \<and> \<not> suffix ''-'' (headingSlug s)
   \<and> (\<forall>c \<in> set (tocSlug s). c \<in> set ''abcdefghijklmnopqrstuvwxyz0123456789_-'')
   \<and> \<not> hasAdjacentHyphens (tocSlug s)
   \<and> \<not> prefix ''-'' (tocSlug s)
   \<and> \<not> suffix ''-'' (tocSlug s)"
  unfolding headingSlug_def tocSlug_def
  using pipeline_shape [of s] pipeline_chars [of _ s] by blast

theorem slug_fragment_safe_witness:
  "headingSlug ''--C++ & C#: 100% -- '' = ''c-c-100''
   \<and> set (headingSlug ''--C++ & C#: 100% -- '') \<subseteq> set ''abcdefghijklmnopqrstuvwxyz0123456789_-''
   \<and> \<not> hasAdjacentHyphens (headingSlug ''--C++ & C#: 100% -- '')
   \<and> \<not> prefix ''-'' (headingSlug ''--C++ & C#: 100% -- '')
   \<and> \<not> suffix ''-'' (headingSlug ''--C++ & C#: 100% -- '')"
proof -
  have "headingSlug ''--C++ & C#: 100% -- '' = ''c-c-100''" by code_simp
  then show ?thesis
    using slug_fragment_safe [of "''--C++ & C#: 100% -- ''"] by blast
qed

text \<open>
  C4 (amended). For every source string \<open>generateTOC\<close> collects exactly one record per
  line that begins with 1 to 6 \<open>#\<close> characters followed by white space, in line order; a
  line with 7 or more leading \<open>#\<close>, or with no white space after the \<open>#\<close>s, produces no
  record. The level of a record is the count of leading \<open>#\<close>. The title is the trimmed
  remainder of the line, markup characters verbatim, cut at the first carriage return it
  contains; it is the whole trimmed remainder whenever that contains no carriage return.
  For the source \<open>## Section One\<close>, \<open>text\<close>, \<open>### Sub\<close> (three lines) the records are
  level 2, \<open>Section One\<close>, \<open>section-one\<close> and level 3, \<open>Sub\<close>, \<open>sub\<close>.
\<close>

theorem heading_extraction:
  "tocItems src = specItems src
   \<and> ((\<forall>c \<in> set (trim (drop (leadingHashes line) line)). \<not> isLineTerminator c)
        \<longrightarrow> title (specRecord line) = trim (drop (leadingHashes line) line))
   \<and> (7 \<le> leadingHashes line \<longrightarrow> pushHeading acc line = acc)
   \<and> (\<not> (leadingHashes line < length line \<and> isSpaceChar (line ! leadingHashes line))
        \<longrightarrow> pushHeading acc line = acc)
   \<and> tocItems (''## Section One'' @ [CHR 0x0A] @ ''text'' @ [CHR 0x0A] @ ''### Sub'')
       = [\<lparr>level = 2, title = ''Section One'', slug = ''section-one''\<rparr>,
          \<lparr>level = 3, title = ''Sub'', slug = ''sub''\<rparr>]"
proof -
  have "tocItems (''## Section One'' @ [CHR 0x0A] @ ''text'' @ [CHR 0x0A] @ ''### Sub'')
       = [\<lparr>level = 2, title = ''Section One'', slug = ''section-one''\<rparr>,
          \<lparr>level = 3, title = ''Sub'', slug = ''sub''\<rparr>]"
    by code_simp
  then show ?thesis
    by (simp add: tocItems_spec title_plain pushHeading_spec begins_iff)
qed

theorem heading_extraction_witness:
  "specItems (''# Intro'' @ [CHR 0x0A] @ ''####### deep'' @ [CHR 0x0A] @ ''#tag'' @ [CHR 0x0A] @ ''##  *Next* '')
     = [\<lparr>level = 1, title = ''Intro'', slug = ''intro''\<rparr>,
        \<lparr>level = 2, title = ''*Next*'', slug = ''next''\<rparr>]
   \<and> tocItems (''# Intro'' @ [CHR 0x0A] @ ''####### deep'' @ [CHR 0x0A] @ ''#tag'' @ [CHR 0x0A] @ ''##  *Next* '')
     = [\<lparr>level = 1, title = ''Intro'', slug = ''intro''\<rparr>,
        \<lparr>level = 2, title = ''*Next*'', slug = ''next''\<rparr>]
   \<and> title (specRecord ''##  *Next* '') = trim (drop (leadingHashes ''##  *Next* '') ''##  *Next* '')
   \<and> pushHeading [] ''####### deep'' = []
   \<and> pushHeading [] ''#tag'' = []"
proof -
  have s: "specItems (''# Intro'' @ [CHR 0x0A] @ ''####### deep'' @ [CHR 0x0A] @ ''#tag'' @ [CHR 0x0A] @ ''##  *Next* '')
     = [\<lparr>level = 1, title = ''Intro'', slug = ''intro''\<rparr>,
        \<lparr>level = 2, title = ''*Next*'', slug = ''next''\<rparr>]"
    by code_simp
  have h1: "\<forall>c \<in> set (trim (drop (leadingHashes ''##  *Next* '') ''##  *Next* '')). \<not> isLineTerminator c"
    by code_simp
  have h2: "7 \<le> leadingHashes ''####### deep''"
    by code_simp
  have h3: "\<not> (leadingHashes ''#tag'' < length ''#tag'' \<and> isSpaceChar (''#tag'' ! leadingHashes ''#tag''))"
    by code_simp
  show ?thesis
    using s h1 h2 h3
      heading_extraction [of "''# Intro'' @ [CHR 0x0A] @ ''####### deep'' @ [CHR 0x0A] @ ''#tag'' @ [CHR 0x0A] @ ''##  *Next* ''" "''##  *Next* ''" "[]"]
      heading_extraction [of "[]" "''####### deep''" "[]"]
      heading_extraction [of "[]" "''#tag''" "[]"]
    by simp
qed

text \<open>
  C4 as stated fails: in the line \<open># a\rb\<close>, where \<open>\r\<close> is a carriage return, \<open>(.*)\<close>
  stops at the carriage return, so the title is \<open>a\<close>, while the trimmed remainder of the
  line is \<open>a\rb\<close>.
\<close>

theorem title_cut_at_carriage_return_counterexample:
  "map title (tocItems [CHR ''#'', CHR '' '', CHR ''a'', CHR 0x0D, CHR ''b'']) = [''a'']
   \<and> trim (drop (leadingHashes [CHR ''#'', CHR '' '', CHR ''a'', CHR 0x0D, CHR ''b''])
        [CHR ''#'', CHR '' '', CHR ''a'', CHR 0x0D, CHR ''b'']) = [CHR ''a'', CHR 0x0D, CHR ''b'']
   \<and> map title (tocItems [CHR ''#'', CHR '' '', CHR ''a'', CHR 0x0D, CHR ''b''])
       \<noteq> [trim (drop (leadingHashes [CHR ''#'', CHR '' '', CHR ''a'', CHR 0x0D, CHR ''b''])
            [CHR ''#'', CHR '' '', CHR ''a'', CHR 0x0D, CHR ''b''])]"
  by code_simp

text \<open>
  C6. A line that begins with 1 to 6 \<open>#\<close> characters followed by white space is extracted
  as a heading wherever it stands in the source: the lines are matched one by one, with
  no state carried from line to line, so the text before and after the line (arbitrary
  text, of any number of lines) contributes its own records and changes nothing for the
  line. In particular the line is extracted inside a fenced code block, whatever the info
  string of the opening fence and whatever other lines the block holds; the fence lines
  themselves yield no record.
\<close>

theorem heading_inside_fence_is_extracted:
  assumes "beginsWithHashesThenSpace line" and "CHR 0x0A \<notin> set line"
  shows "tocItems (before @ CHR 0x0A # line @ CHR 0x0A # after)
           = tocItems before @ [specRecord line] @ tocItems after
       \<and> tocItems (line @ CHR 0x0A # after) = [specRecord line] @ tocItems after
       \<and> tocItems (before @ CHR 0x0A # line) = tocItems before @ [specRecord line]
       \<and> tocItems line = [specRecord line]
       \<and> (CHR 0x0A \<notin> set info \<longrightarrow>
            tocItems (before @ CHR 0x0A # ''```'' @ info @ CHR 0x0A # body @ CHR 0x0A # line
                        @ CHR 0x0A # rest @ CHR 0x0A # ''```'' @ CHR 0x0A # after)
              = tocItems before @ tocItems body @ [specRecord line] @ tocItems rest @ tocItems after)"
proof -
  from assms have l: "tocItems line = [specRecord line]"
    by (simp add: tocItems_line)
  have f: "tocItems (''```'' @ info) = []" if "CHR 0x0A \<notin> set info"
    using that by (rule fence_line_no_record)
  have f0: "tocItems ''```'' = []"
    using fence_line_no_record [of "[]"] by simp
  have "tocItems (before @ CHR 0x0A # ''```'' @ info @ CHR 0x0A # body @ CHR 0x0A # line
                        @ CHR 0x0A # rest @ CHR 0x0A # ''```'' @ CHR 0x0A # after)
      = tocItems before @ tocItems (''```'' @ info) @ tocItems body @ tocItems line
          @ tocItems rest @ tocItems ''```'' @ tocItems after"
    using tocItems_append [of before "(''```'' @ info) @ CHR 0x0A # body @ CHR 0x0A # line
                        @ CHR 0x0A # rest @ CHR 0x0A # ''```'' @ CHR 0x0A # after"]
      tocItems_append [of "''```'' @ info" "body @ CHR 0x0A # line
                        @ CHR 0x0A # rest @ CHR 0x0A # ''```'' @ CHR 0x0A # after"]
      tocItems_append [of body "line @ CHR 0x0A # rest @ CHR 0x0A # ''```'' @ CHR 0x0A # after"]
      tocItems_append [of line "rest @ CHR 0x0A # ''```'' @ CHR 0x0A # after"]
      tocItems_append [of rest "''```'' @ CHR 0x0A # after"]
      tocItems_append [of "''```''" after]
    by simp
  then show ?thesis
    using l f f0 by (simp add: tocItems_append)
qed

theorem heading_inside_fence_is_extracted_witness:
  "beginsWithHashesThenSpace ''# build the project''
   \<and> CHR 0x0A \<notin> set ''# build the project''
   \<and> CHR 0x0A \<notin> set ''bash''
   \<and> tocItems (''## Usage'' @ CHR 0x0A # ''```'' @ ''bash'' @ CHR 0x0A # ''cd app'' @ CHR 0x0A #
         ''# build the project'' @ CHR 0x0A # ''npm run build'' @ CHR 0x0A # ''```'' @ CHR 0x0A # ''done'')
       = [\<lparr>level = 2, title = ''Usage'', slug = ''usage''\<rparr>,
          \<lparr>level = 1, title = ''build the project'', slug = ''build-the-project''\<rparr>]"
proof -
  have h1: "beginsWithHashesThenSpace ''# build the project''" by code_simp
  have h2: "CHR 0x0A \<notin> set ''# build the project''" by code_simp
  have h3: "CHR 0x0A \<notin> set ''bash''" by code_simp
  have e1: "tocItems ''## Usage'' = [\<lparr>level = 2, title = ''Usage'', slug = ''usage''\<rparr>]"
    by code_simp
  have e2: "specRecord ''# build the project''
      = \<lparr>level = 1, title = ''build the project'', slug = ''build-the-project''\<rparr>"
    by code_simp
  have e3: "tocItems ''done'' = []" by code_simp
  have e4: "tocItems ''cd app'' = []" by code_simp
  have e5: "tocItems ''npm run build'' = []" by code_simp
  from heading_inside_fence_is_extracted [OF h1 h2, of "''## Usage''" "''done''" "''bash''" "''cd app''" "''npm run build''"] h3
  have "tocItems (''## Usage'' @ CHR 0x0A # ''```'' @ ''bash'' @ CHR 0x0A # ''cd app'' @ CHR 0x0A #
         ''# build the project'' @ CHR 0x0A # ''npm run build'' @ CHR 0x0A # ''```'' @ CHR 0x0A # ''done'')
     = tocItems ''## Usage'' @ tocItems ''cd app'' @ [specRecord ''# build the project'']
         @ tocItems ''npm run build'' @ tocItems ''done''"
    by (elim conjE impE)
  then show ?thesis
    using h1 h2 h3 unfolding e1 e2 e3 e4 e5 by simp
qed

text \<open>
  C10. A line of 1 to 6 \<open>#\<close> characters followed only by white space yields a record
  whose title and slug are both empty, and its entry in the table of contents is a link
  with no text whose target is the bare fragment \<open>#\<close>.
\<close>

theorem blank_heading_entry:
  assumes "1 \<le> k" and "k \<le> 6" and "ws \<noteq> []" and "\<forall>c \<in> set ws. isSpaceChar c"
  shows "pushHeading acc (replicate k (CHR ''#'') @ ws)
           = acc @ [\<lparr>level = int k, title = [], slug = []\<rparr>]
       \<and> appendEntry tocHtml \<lparr>level = int k, title = [], slug = []\<rparr>
           = tocHtml @ ''<div style=\"margin-left: '' @ showInt ((int k - 1) * 20)
               @ ''px;\"><a href=\"#\"></a></div>''
       \<and> (CHR 0x0A \<notin> set ws \<longrightarrow>
            generateTOC (replicate k (CHR ''#'') @ ws)
              = tocOpen @ ''<div style=\"margin-left: '' @ showInt ((int k - 1) * 20)
                  @ ''px;\"><a href=\"#\"></a></div></nav>'')"
proof -
  note r = blank_heading_record [OF assms]
  have p: "pushHeading acc (replicate k (CHR ''#'') @ ws)
      = acc @ [\<lparr>level = int k, title = [], slug = []\<rparr>]"
    using r by (simp add: pushHeading_spec)
  have "tocItems (replicate k (CHR ''#'') @ ws) = [\<lparr>level = int k, title = [], slug = []\<rparr>]"
    if "CHR 0x0A \<notin> set ws"
    using that r by (simp add: tocItems_line)
  then show ?thesis
    using p by (simp add: generateTOC_def tocHtmlOf_def appendEntry_def)
qed

theorem blank_heading_entry_witness:
  "generateTOC ''##  '' = tocOpen @ ''<div style=\"margin-left: 20px;\"><a href=\"#\"></a></div></nav>''
   \<and> pushHeading [] ''##  '' = [\<lparr>level = 2, title = [], slug = []\<rparr>]"
proof -
  have h: "(1::nat) \<le> 2" "(2::nat) \<le> 6" "''  '' \<noteq> []" "\<forall>c \<in> set ''  ''. isSpaceChar c"
    "CHR 0x0A \<notin> set ''  ''"
    by (simp_all add: isSpaceChar_def)
  have r: "replicate 2 (CHR ''#'') @ ''  '' = ''##  ''" by (simp add: numeral_2_eq_2)
  have s: "showInt ((int 2 - 1) * 20) = ''20''" by code_simp
  show ?thesis
    using blank_heading_entry [OF h(1-4), of "[]" "[]"] h(5) unfolding r s by simp
qed

text \<open>
  C5. For every non-empty list of records the HTML of the table of contents is the
  opening of the \<open>nav\<close> block, then one entry per record in the order of the list, then
  the closing tag. An entry is a \<open>div\<close> whose left margin is 20 times (level - 1) pixels
  and that holds a link to \<open>#\<close> followed by the slug, with the title as its text,
  unescaped. The entries are not nested. Nothing is deduplicated: a source repeated after
  itself yields every record twice, and equal records yield equal entries.
\<close>

theorem toc_html_entries:
  "(items \<noteq> [] \<longrightarrow>
      tocHtmlOf items =
        tocOpen @ concat (map (\<lambda>item. ''<div style=\"margin-left: '' @ showInt (20 * (level item - 1))
          @ ''px;\"><a href=\"#'' @ slug item @ ''\">'' @ title item @ ''</a></div>'') items)
        @ ''</nav>'')
   \<and> generateTOC src = tocHtmlOf (tocItems src)
   \<and> tocItems (src @ CHR 0x0A # src) = tocItems src @ tocItems src
   \<and> tocHtmlOf [\<lparr>level = 1, title = ''A'', slug = ''a''\<rparr>, \<lparr>level = 2, title = ''B'', slug = ''b''\<rparr>]
       = tocOpen @ ''<div style=\"margin-left: 0px;\"><a href=\"#a\">A</a></div>''
           @ ''<div style=\"margin-left: 20px;\"><a href=\"#b\">B</a></div>'' @ ''</nav>''"
proof -
  have "tocHtmlOf [\<lparr>level = 1, title = ''A'', slug = ''a''\<rparr>, \<lparr>level = 2, title = ''B'', slug = ''b''\<rparr>]
       = tocOpen @ ''<div style=\"margin-left: 0px;\"><a href=\"#a\">A</a></div>''
           @ ''<div style=\"margin-left: 20px;\"><a href=\"#b\">B</a></div>'' @ ''</nav>''"
    by code_simp
  then show ?thesis
    using tocHtmlOf_entries [of items] by (simp add: generateTOC_def tocItems_append)
qed

theorem toc_html_entries_witness:
  "tocItems (''## Notes <b>'' @ CHR 0x0A # ''## Notes <b>'')
     = [\<lparr>level = 2, title = ''Notes <b>'', slug = ''notes-b''\<rparr>,
        \<lparr>level = 2, title = ''Notes <b>'', slug = ''notes-b''\<rparr>]
   \<and> tocHtmlOf [\<lparr>level = 2, title = ''Notes <b>'', slug = ''notes-b''\<rparr>,
                 \<lparr>level = 2, title = ''Notes <b>'', slug = ''notes-b''\<rparr>]
     = tocOpen @ ''<div style=\"margin-left: 20px;\"><a href=\"#notes-b\">Notes <b></a></div>''
         @ ''<div style=\"margin-left: 20px;\"><a href=\"#notes-b\">Notes <b></a></div>'' @ ''</nav>''"
proof -
  let ?r = "\<lparr>level = 2, title = ''Notes <b>'', slug = ''notes-b''\<rparr>"
  note T = toc_html_entries [of "[?r, ?r]" "''## Notes <b>''"]
  have e: "tocItems ''## Notes <b>'' = [?r]"
    by code_simp
  have n: "[?r, ?r] \<noteq> []"
    by simp
  have s: "showInt 20 = ''20''"
    by code_simp
  from T have b: "tocItems (''## Notes <b>'' @ CHR 0x0A # ''## Notes <b>'')
      = tocItems ''## Notes <b>'' @ tocItems ''## Notes <b>''"
    by (elim conjE)
  from T n have a: "tocHtmlOf [?r, ?r] =
      tocOpen @ concat (map (\<lambda>item. ''<div style=\"margin-left: '' @ showInt (20 * (level item - 1))
          @ ''px;\"><a href=\"#'' @ slug item @ ''\">'' @ title item @ ''</a></div>'') [?r, ?r])
        @ ''</nav>''"
    by (elim conjE impE)
  show ?thesis
    unfolding b e a by (simp add: s)
qed

text \<open>
  C1. The slug expression of \<open>generateTOC\<close> and the one of \<open>renderer.heading\<close> give the
  same slug on every string. So for every record of the table of contents, whenever the
  rendering pass receives the record's title as the heading text (which is the case for a
  heading without inline markup), the heading it emits carries the record's slug as its
  \<open>id\<close>, and the link \<open>#slug\<close> of the table of contents points at it.
\<close>

theorem toc_slug_matches_heading_id:
  "tocSlug t = headingSlug t
   \<and> (\<forall>item \<in> set (tocItems src).
        slug item = headingSlug (title item)
        \<and> renderer_heading \<lparr>token_depth = level item, token_text = title item\<rparr>
            = ''<h'' @ showInt (level item) @ '' id=\"'' @ slug item @ ''\">'' @ title item
                @ ''</h'' @ showInt (level item) @ ''>'')"
proof -
  have "tocSlug u = headingSlug u" for u
    by (simp add: tocSlug_def headingSlug_def)
  then show ?thesis
    by (simp add: item_slug renderer_heading_def)
qed

theorem toc_slug_matches_heading_id_witness:
  "tocItems ''### Factory Method'' = [\<lparr>level = 3, title = ''Factory Method'', slug = ''factory-method''\<rparr>]
   \<and> renderer_heading \<lparr>token_depth = 3, token_text = ''Factory Method''\<rparr>
       = ''<h3 id=\"factory-method\">Factory Method</h3>''"
proof -
  have e: "tocItems ''### Factory Method''
      = [\<lparr>level = 3, title = ''Factory Method'', slug = ''factory-method''\<rparr>]"
    by code_simp
  have s: "showInt 3 = ''3''" by code_simp
  show ?thesis
    using toc_slug_matches_heading_id [of "[]" "''### Factory Method''"]
    unfolding e by (simp add: s)
qed

text \<open>
  C2. There is a heading with inline markup whose two slugs differ: for the line
  \<open># a**b**c\<close> the table of contents computes the slug \<open>a-b-c\<close> from the raw title,
  while the rendering pass receives the resolved text \<open>abc\<close> and emits the \<open>id\<close> \<open>abc\<close>.
\<close>

theorem markup_heading_slugs_diverge:
  "tocItems ''# a**b**c'' = [\<lparr>level = 1, title = ''a**b**c'', slug = ''a-b-c''\<rparr>]
   \<and> resolveInline ''a**b**c'' = ''abc''
   \<and> renderer_heading \<lparr>token_depth = 1, token_text = resolveInline ''a**b**c''\<rparr>
       = ''<h1 id=\"abc\">abc</h1>''
   \<and> tocSlug ''a**b**c'' \<noteq> headingSlug (resolveInline ''a**b**c'')"
  by code_simp



text \<open>
  C8. When the source document cannot be read, the request logs the error and answers
  once, with status 500 and the fixed message. Nothing else happens: \<open>generateTOC\<close> is
  not run, the conversion engine is not called, and the answer does not depend on the
  engine or on the page template.
\<close>

theorem read_failure_response:
  "rootHandler parse pageHead pageTail (Inl err)
     = [ConsoleError err, Responded 500 ''Internal Server Error: Could not read Markdown file.'']
   \<and> rootHandler parse pageHead pageTail (Inl err) = rootHandler parse' pageHead' pageTail' (Inl err)"
  by (simp add: rootHandler_def)

end
